theory Spec2Isabelle
  imports Main "HOL-Library.Word" "HOL-Library.Signed_Division"
begin

unbundle bit_operations_syntax

section \<open>The two sketches\<close>

text \<open>
  The repository holds two versions of one Arduino Nano sketch driving a strip of 108
  WS2812B pixels: \<^verbatim>\<open>rocket-led-arduino/rocket-led-arduino.ino\<close> and
  \<^verbatim>\<open>unnamed/part_000\<close>. They share their structure (a start-up function, then \<^verbatim>\<open>loop\<close> forever)
  and differ in four places only, which the record \<open>sketch\<close> collects:
  \<^item> the block length of the chase pattern: the literal \<^verbatim>\<open>3\<close> in the first file,
    \<^verbatim>\<open>PATTERN_BLOCK = 2\<close> in the second;
  \<^item> its period: the literal \<^verbatim>\<open>6\<close> in the first file, \<^verbatim>\<open>PATTERN_PERIOD = PATTERN_BLOCK * 2\<close>
    in the second;
  \<^item> \<^verbatim>\<open>PHASE_COUNT\<close>: \<^verbatim>\<open>sizeof(PHASES)/sizeof(PHASES[0])\<close> in the first file, \<^verbatim>\<open>10\<close> in the
    second;
  \<^item> the test \<^verbatim>\<open>if (phaseIndex < 9)\<close> around the read of \<^verbatim>\<open>PHASES[phaseIndex]\<close>, which only
    the second file has.
  \<^verbatim>\<open>REVERSE_FLOW\<close> is a preprocessor switch, \<^verbatim>\<open>1\<close> in both files; it is a field too, so
  that both branches of \<^verbatim>\<open>#if REVERSE_FLOW\<close> are part of the model.

  C \<^verbatim>\<open>int\<close> values are modelled as \<open>int\<close>, with C's truncating \<^verbatim>\<open>/\<close> and \<^verbatim>\<open>%\<close>
  (\<open>sdiv\<close> and \<open>smod\<close>); every value the sketches compute from an analog sample in
  \<open>0..1023\<close> and from indices below 108 stays far inside the 16 bits of an AVR \<^verbatim>\<open>int\<close>.
  \<^verbatim>\<open>unsigned long\<close> and \<^verbatim>\<open>uint32_t\<close> are 32-bit words, \<^verbatim>\<open>uint8_t\<close> is an 8-bit word.
\<close>

type_synonym uint8 = "8 word"
type_synonym uint32 = "32 word"

record sketch =
  PATTERN_BLOCK :: int
  PATTERN_PERIOD :: int
  PHASE_COUNT :: int
  REVERSE_FLOW :: bool
  PHASE_GUARD :: bool

definition LED_COUNT :: int where
  "LED_COUNT = 108"

definition SEG_A_START :: int where
  "SEG_A_START = 0"

definition SEG_A_END :: int where
  "SEG_A_END = 32"

definition SEG_B_START :: int where
  "SEG_B_START = 33"

definition SEG_B_END :: int where
  "SEG_B_END = 107"

text \<open>\<^verbatim>\<open>struct Range { int s, e; }\<close>; the fields are \<open>range_s\<close> and \<open>range_e\<close> here.\<close>

record Range =
  range_s :: int
  range_e :: int

definition PHASES :: "Range list" where
  "PHASES =
    [\<lparr>range_s = 33, range_e = 41\<rparr>,
     \<lparr>range_s = 42, range_e = 45\<rparr>,
     \<lparr>range_s = 46, range_e = 57\<rparr>,
     \<lparr>range_s = 58, range_e = 62\<rparr>,
     \<lparr>range_s = 63, range_e = 73\<rparr>,
     \<lparr>range_s = 74, range_e = 79\<rparr>,
     \<lparr>range_s = 80, range_e = 87\<rparr>,
     \<lparr>range_s = 88, range_e = 101\<rparr>,
     \<lparr>range_s = 102, range_e = 107\<rparr>]"

text \<open>The constants of \<^verbatim>\<open>rocket-led-arduino.ino\<close>.\<close>

definition sketch_ino :: sketch where
  "sketch_ino =
    \<lparr>PATTERN_BLOCK = 3, PATTERN_PERIOD = 6, PHASE_COUNT = int (length PHASES),
     REVERSE_FLOW = True, PHASE_GUARD = False\<rparr>"

text \<open>The constants of \<^verbatim>\<open>unnamed/part_000\<close>.\<close>

definition sketch_part000 :: sketch where
  "sketch_part000 =
    \<lparr>PATTERN_BLOCK = 2, PATTERN_PERIOD = 2 * 2, PHASE_COUNT = 10,
     REVERSE_FLOW = True, PHASE_GUARD = True\<rparr>"

definition BRIGHT_MIN :: uint8 where
  "BRIGHT_MIN = 10"

definition BRIGHT_MAX :: uint8 where
  "BRIGHT_MAX = 255"

definition CHASE_DELAY_MIN_MS :: uint32 where
  "CHASE_DELAY_MIN_MS = 20"

definition CHASE_DELAY_MAX_MS :: uint32 where
  "CHASE_DELAY_MAX_MS = 300"

section \<open>Colours and the pixel buffer\<close>

text \<open>
  Modelled from the spec: \<^verbatim>\<open>pixels.Color\<close> belongs to the Adafruit_NeoPixel library, which
  is not among the sources. The spec asks of the colour model only that it maps a
  brightness to a colour value; the library packs the three bytes into one 32-bit value,
  red in bits 16..23, green in bits 8..15, blue in bits 0..7.
\<close>

definition Color :: "uint8 \<Rightarrow> uint8 \<Rightarrow> uint8 \<Rightarrow> uint32" where
  "Color r g b = push_bit 16 (ucast r) OR push_bit 8 (ucast g) OR ucast b"

definition colWhite :: "uint8 \<Rightarrow> uint32" where
  "colWhite b = Color b b b"

definition colBlue :: "uint8 \<Rightarrow> uint32" where
  "colBlue b = Color (b div 7) (b div 7) b"

definition colOrange :: "uint8 \<Rightarrow> uint32" where
  "colOrange b = Color b (b div 3) 0"

definition COL_OFF :: uint32 where
  "COL_OFF = 0"

text \<open>
  Modelled from the spec: \<^verbatim>\<open>pixels.setPixelColor\<close> belongs to the same library. The spec
  asks for "set pixel color at index" on a buffer of fixed length; the library ignores an
  index outside the strip.
\<close>

definition setPixelColor :: "int \<Rightarrow> uint32 \<Rightarrow> uint32 list \<Rightarrow> uint32 list" where
  "setPixelColor i col buf =
    (if 0 \<le> i \<and> nat i < length buf then buf[nat i := col] else buf)"

section \<open>Input mapping\<close>

text \<open>
  \<^verbatim>\<open>int b = rawB / 4; if (b < BRIGHT_MIN) b = BRIGHT_MIN; if (b > BRIGHT_MAX) b = BRIGHT_MAX;\<close>
  The two bounds are \<^verbatim>\<open>uint8_t\<close> and are promoted to \<^verbatim>\<open>int\<close> in the comparisons.
\<close>

definition brightness :: "int \<Rightarrow> int" where
  "brightness rawB =
    (let b = rawB sdiv 4;
         b = (if b < uint BRIGHT_MIN then uint BRIGHT_MIN else b);
         b = (if b > uint BRIGHT_MAX then uint BRIGHT_MAX else b)
     in b)"

text \<open>
  Modelled from the spec: \<^verbatim>\<open>map\<close> is a function of the Arduino core, which is not among the
  sources. The spec describes it as the standard linear range remap in integer arithmetic;
  the core computes it on \<^verbatim>\<open>long\<close> values as
  \<^verbatim>\<open>(x - in_min) * (out_max - out_min) / (in_max - in_min) + out_min\<close>.
\<close>

definition map_long :: "int \<Rightarrow> int \<Rightarrow> int \<Rightarrow> int \<Rightarrow> int \<Rightarrow> int" where
  "map_long x in_min in_max out_min out_max =
    ((x - in_min) * (out_max - out_min)) sdiv (in_max - in_min) + out_min"

text \<open>\<^verbatim>\<open>phaseDelayMs = map(rawS, 0, 1023, 5000, 300);\<close> stored in an \<^verbatim>\<open>unsigned long\<close>.\<close>

definition phase_delay :: "int \<Rightarrow> uint32" where
  "phase_delay rawS = word_of_int (map_long rawS 0 1023 5000 300)"

text \<open>
  \<^verbatim>\<open>unsigned long cd = phaseDelayMs / 8;\<close>
  \<^verbatim>\<open>if (cd < CHASE_DELAY_MIN_MS) cd = CHASE_DELAY_MIN_MS;\<close>
  \<^verbatim>\<open>if (cd > CHASE_DELAY_MAX_MS) cd = CHASE_DELAY_MAX_MS;\<close>
\<close>

definition chase_delay :: "uint32 \<Rightarrow> uint32" where
  "chase_delay pd =
    (let cd = pd div 8;
         cd = (if cd < CHASE_DELAY_MIN_MS then CHASE_DELAY_MIN_MS else cd);
         cd = (if cd > CHASE_DELAY_MAX_MS then CHASE_DELAY_MAX_MS else cd)
     in cd)"

text \<open>The clamp of the specification: saturation at the two bounds.\<close>

definition clamp :: "'a::linorder \<Rightarrow> 'a \<Rightarrow> 'a \<Rightarrow> 'a" where
  "clamp x lo hi = (if x < lo then lo else if hi < x then hi else x)"

section \<open>Animation state and the loop\<close>

text \<open>
  The global variables of the sketch. \<open>initial\<close> is their value after the sketch's
  start-up function has run: the two indices and the two timestamps are zero, the delays
  hold their initialisers and the buffer is cleared.
\<close>

record state =
  chaseStep :: int
  phaseIndex :: int
  lastChase :: uint32
  lastPhase :: uint32
  chaseDelayMs :: uint32
  phaseDelayMs :: uint32
  pixels :: "uint32 list"

definition initial :: state where
  "initial =
    \<lparr>chaseStep = 0, phaseIndex = 0, lastChase = 0, lastPhase = 0,
     chaseDelayMs = 100, phaseDelayMs = 1200,
     pixels = replicate (nat LED_COUNT) 0\<rparr>"

text \<open>\<^verbatim>\<open>chaseStep = (chaseStep + 1) % PATTERN_PERIOD;\<close> (\<^verbatim>\<open>% 6\<close> in the first file).\<close>

definition chase_advance :: "sketch \<Rightarrow> int \<Rightarrow> int" where
  "chase_advance c step = (step + 1) smod PATTERN_PERIOD c"

text \<open>\<^verbatim>\<open>phaseIndex = (phaseIndex + 1) % PHASE_COUNT;\<close>\<close>

definition phase_advance :: "sketch \<Rightarrow> int \<Rightarrow> int" where
  "phase_advance c idx = (idx + 1) smod PHASE_COUNT c"

text \<open>
  The two timer tests, one after the other; the subtraction of the \<^verbatim>\<open>unsigned long\<close>
  timestamps wraps around.
\<close>

definition advance :: "sketch \<Rightarrow> uint32 \<Rightarrow> state \<Rightarrow> state" where
  "advance c now st =
    (let st = (if now - lastChase st \<ge> chaseDelayMs st
               then st\<lparr>lastChase := now, chaseStep := chase_advance c (chaseStep st)\<rparr>
               else st);
         st = (if now - lastPhase st \<ge> phaseDelayMs st
               then st\<lparr>lastPhase := now, phaseIndex := phase_advance c (phaseIndex st)\<rparr>
               else st)
     in st)"

text \<open>
  The index into the chase pattern, under \<^verbatim>\<open>#if REVERSE_FLOW\<close>:
  \<^verbatim>\<open>idx = ((rel - chaseStep) % PATTERN_PERIOD + PATTERN_PERIOD) % PATTERN_PERIOD;\<close>
  and otherwise \<^verbatim>\<open>idx = (rel + chaseStep) % PATTERN_PERIOD;\<close>
\<close>

definition chase_idx :: "sketch \<Rightarrow> int \<Rightarrow> int \<Rightarrow> int" where
  "chase_idx c rel step =
    (if REVERSE_FLOW c
     then ((rel - step) smod PATTERN_PERIOD c + PATTERN_PERIOD c) smod PATTERN_PERIOD c
     else (rel + step) smod PATTERN_PERIOD c)"

text \<open>The body of the loop over Segment A: the colour written to pixel \<open>i\<close>.\<close>

definition segA_col :: "sketch \<Rightarrow> uint8 \<Rightarrow> int \<Rightarrow> int \<Rightarrow> uint32" where
  "segA_col c b step i =
    (let rel = i - SEG_A_START;
         idx = chase_idx c rel step
     in if idx < PATTERN_BLOCK c then colWhite b else colBlue b)"

text \<open>\<^verbatim>\<open>for (int i = SEG_A_START; i <= SEG_A_END; i++) { ... pixels.setPixelColor(i, col); }\<close>\<close>

definition render_A :: "sketch \<Rightarrow> uint8 \<Rightarrow> int \<Rightarrow> uint32 list \<Rightarrow> uint32 list" where
  "render_A c b step buf =
    fold (\<lambda>i. setPixelColor i (segA_col c b step i)) [SEG_A_START..SEG_A_END] buf"

text \<open>\<^verbatim>\<open>for (int i = SEG_B_START; i <= SEG_B_END; i++) pixels.setPixelColor(i, COL_OFF);\<close>\<close>

definition clear_B :: "uint32 list \<Rightarrow> uint32 list" where
  "clear_B buf = fold (\<lambda>i. setPixelColor i COL_OFF) [SEG_B_START..SEG_B_END] buf"

text \<open>The colour of a pixel of the active phase: orange for LED 74 in phase index 5.\<close>

definition phase_col :: "uint8 \<Rightarrow> int \<Rightarrow> int \<Rightarrow> uint32" where
  "phase_col b ph i = (if ph = 5 \<and> i = 74 then colOrange b else colWhite b)"

text \<open>\<^verbatim>\<open>for (int i = r.s; i <= r.e; i++) { ... }\<close>\<close>

definition light_range :: "uint8 \<Rightarrow> int \<Rightarrow> Range \<Rightarrow> uint32 list \<Rightarrow> uint32 list" where
  "light_range b ph r buf =
    fold (\<lambda>i. setPixelColor i (phase_col b ph i)) [range_s r..range_e r] buf"

text \<open>
  \<^verbatim>\<open>Range r = PHASES[phaseIndex];\<close> A read outside the nine entries of the table is
  undefined behaviour in C; the model makes it an error.
\<close>

datatype error = PhaseTableOutOfBounds

definition read_PHASES :: "int \<Rightarrow> error + Range" where
  "read_PHASES ph =
    (if 0 \<le> ph \<and> ph < int (length PHASES) then Inr (PHASES ! nat ph)
     else Inl PhaseTableOutOfBounds)"

definition light_phase :: "uint8 \<Rightarrow> int \<Rightarrow> uint32 list \<Rightarrow> error + uint32 list" where
  "light_phase b ph buf =
    (case read_PHASES ph of
       Inl err \<Rightarrow> Inl err
     | Inr r \<Rightarrow> Inr (light_range b ph r buf))"

text \<open>
  The second file reads the table under \<^verbatim>\<open>if (phaseIndex < 9)\<close> and leaves the segment
  dark otherwise; the first file reads it without a test.
\<close>

definition render_B :: "sketch \<Rightarrow> uint8 \<Rightarrow> int \<Rightarrow> uint32 list \<Rightarrow> error + uint32 list" where
  "render_B c b ph buf =
    (if PHASE_GUARD c
     then (if ph < 9 then light_phase b ph buf else Inr buf)
     else light_phase b ph buf)"

text \<open>The render pass: Segment A, then Segment B cleared, then the active phase.\<close>

definition render :: "sketch \<Rightarrow> uint8 \<Rightarrow> int \<Rightarrow> int \<Rightarrow> uint32 list \<Rightarrow> error + uint32 list" where
  "render c b step ph buf = render_B c b ph (clear_B (render_A c b step buf))"

text \<open>
  One pass of \<^verbatim>\<open>loop\<close>. Its inputs are the values of \<^verbatim>\<open>analogRead(BRIGHT_POT)\<close>,
  \<^verbatim>\<open>analogRead(SPEED_POT)\<close> and \<^verbatim>\<open>millis()\<close>. \<^verbatim>\<open>pixels.show()\<close> sends the buffer to the strip
  and \<^verbatim>\<open>delay(10)\<close> waits; neither changes the state.
\<close>

definition loop :: "sketch \<Rightarrow> int \<Rightarrow> int \<Rightarrow> uint32 \<Rightarrow> state \<Rightarrow> error + state" where
  "loop c rawB rawS now st =
    (let b = brightness rawB;
         st = st\<lparr>phaseDelayMs := phase_delay rawS\<rparr>;
         st = st\<lparr>chaseDelayMs := chase_delay (phaseDelayMs st)\<rparr>;
         st = advance c now st
     in case render c (word_of_int b) (chaseStep st) (phaseIndex st) (pixels st) of
          Inl err \<Rightarrow> Inl err
        | Inr buf \<Rightarrow> Inr (st\<lparr>pixels := buf\<rparr>))"

text \<open>The sketch run on a sequence of inputs, one triple per pass, stopping at an error.\<close>

fun run :: "sketch \<Rightarrow> (int \<times> int \<times> uint32) list \<Rightarrow> state \<Rightarrow> error + state" where
  "run c [] st = Inr st"
| "run c ((rawB, rawS, now) # ins) st =
    (case loop c rawB rawS now st of
       Inl err \<Rightarrow> Inl err
     | Inr st' \<Rightarrow> run c ins st')"

text \<open>
  Whether a pass advances the chase step, or the phase index: the timer tests of
  \<open>advance\<close>, with the delays that the pass has just computed from the speed sample.
\<close>

definition chase_due :: "int \<Rightarrow> uint32 \<Rightarrow> state \<Rightarrow> bool" where
  "chase_due rawS now st = (now - lastChase st \<ge> chase_delay (phase_delay rawS))"

definition phase_due :: "int \<Rightarrow> uint32 \<Rightarrow> state \<Rightarrow> bool" where
  "phase_due rawS now st = (now - lastPhase st \<ge> phase_delay rawS)"

text \<open>The number of passes of a run that advance the chase step, and the phase index.\<close>

fun chase_advances :: "sketch \<Rightarrow> (int \<times> int \<times> uint32) list \<Rightarrow> state \<Rightarrow> nat" where
  "chase_advances c [] st = 0"
| "chase_advances c ((rawB, rawS, now) # ins) st =
    (case loop c rawB rawS now st of
       Inl err \<Rightarrow> 0
     | Inr st' \<Rightarrow> (if chase_due rawS now st then 1 else 0) + chase_advances c ins st')"

fun phase_advances :: "sketch \<Rightarrow> (int \<times> int \<times> uint32) list \<Rightarrow> state \<Rightarrow> nat" where
  "phase_advances c [] st = 0"
| "phase_advances c ((rawB, rawS, now) # ins) st =
    (case loop c rawB rawS now st of
       Inl err \<Rightarrow> 0
     | Inr st' \<Rightarrow> (if phase_due rawS now st then 1 else 0) + phase_advances c ins st')"

section \<open>The buffer after a render pass\<close>

text \<open>
  Each loop of the render pass writes, at every index of its range that lies inside the
  buffer, a colour that depends on the index alone; so the content of the buffer after
  the pass has a closed form.
\<close>

lemma setPixelColor_length: "length (setPixelColor i col buf) = length buf"
  by (simp add: setPixelColor_def)

lemma setPixelColor_nth:
  "setPixelColor i col buf ! k = (if int k = i \<and> k < length buf then col else buf ! k)"
  by (auto simp: setPixelColor_def nth_list_update)

lemma fold_set_length:
  "length (fold (\<lambda>i. setPixelColor i (f i)) xs buf) = length buf"
  by (induction xs arbitrary: buf) (simp_all add: setPixelColor_length)

lemma fold_set_nth:
  "fold (\<lambda>i. setPixelColor i (f i)) xs buf ! k =
    (if int k \<in> set xs \<and> k < length buf then f (int k) else buf ! k)"
proof (induction xs arbitrary: buf)
  case Nil
  show ?case by simp
next
  case (Cons x xs)
  show ?case
    by (simp add: Cons.IH setPixelColor_length setPixelColor_nth)
qed

lemma read_PHASES_bounds:
  assumes "read_PHASES ph = Inr r"
  shows "0 \<le> ph \<and> ph < 9 \<and> r = PHASES ! nat ph \<and> SEG_B_START \<le> range_s r \<and> range_s r \<le> range_e r \<and> range_e r \<le> SEG_B_END"
proof -
  from assms have b: "0 \<le> ph" "ph < 9" and r: "r = PHASES ! nat ph"
    by (auto simp: read_PHASES_def PHASES_def split: if_splits)
  from b have "nat ph \<in> {0, 1, 2, 3, 4, 5, 6, 7, 8}" by auto
  then have "SEG_B_START \<le> range_s r \<and> range_s r \<le> range_e r \<and> range_e r \<le> SEG_B_END"
    unfolding r by (auto simp: PHASES_def SEG_B_START_def SEG_B_END_def)
  with b r show ?thesis by simp
qed

lemma read_PHASES_ok: "0 \<le> ph \<Longrightarrow> ph < 9 \<Longrightarrow> read_PHASES ph = Inr (PHASES ! nat ph)"
  by (simp add: read_PHASES_def PHASES_def)

lemma render_A_length: "length (render_A c b step buf) = length buf"
  by (simp add: render_A_def fold_set_length)

lemma clear_B_length: "length (clear_B buf) = length buf"
  by (simp add: clear_B_def fold_set_length)

lemma light_range_length: "length (light_range b ph r buf) = length buf"
  by (simp add: light_range_def fold_set_length)

lemma render_A_nth:
  "render_A c b step buf ! k =
    (if SEG_A_START \<le> int k \<and> int k \<le> SEG_A_END \<and> k < length buf
     then segA_col c b step (int k) else buf ! k)"
  by (simp add: render_A_def fold_set_nth)

lemma clear_B_nth:
  "clear_B buf ! k =
    (if SEG_B_START \<le> int k \<and> int k \<le> SEG_B_END \<and> k < length buf
     then COL_OFF else buf ! k)"
  by (simp add: clear_B_def fold_set_nth)

lemma light_range_nth:
  "light_range b ph r buf ! k =
    (if range_s r \<le> int k \<and> int k \<le> range_e r \<and> k < length buf
     then phase_col b ph (int k) else buf ! k)"
  by (simp add: light_range_def fold_set_nth)

lemma render_lit:
  "0 \<le> ph \<Longrightarrow> ph < 9 \<Longrightarrow>
    render c b step ph buf =
      Inr (light_range b ph (PHASES ! nat ph) (clear_B (render_A c b step buf)))"
  by (simp add: render_def render_B_def light_phase_def read_PHASES_ok)

lemma render_dark:
  "PHASE_GUARD c \<Longrightarrow> 9 \<le> ph \<Longrightarrow>
    render c b step ph buf = Inr (clear_B (render_A c b step buf))"
  by (simp add: render_def render_B_def)

lemma render_Inr:
  assumes "render c b step ph buf = Inr buf'"
  shows "(0 \<le> ph \<and> ph < 9 \<and>
      buf' = light_range b ph (PHASES ! nat ph) (clear_B (render_A c b step buf)))
    \<or> (PHASE_GUARD c \<and> 9 \<le> ph \<and> buf' = clear_B (render_A c b step buf))"
  using assms
  by (auto simp: render_def render_B_def light_phase_def
      split: if_splits sum.splits dest: read_PHASES_bounds)

lemma render_length: "render c b step ph buf = Inr buf' \<Longrightarrow> length buf' = length buf"
  by (auto dest!: render_Inr simp: light_range_length clear_B_length render_A_length)

lemma render_nth:
  assumes "render c b step ph buf = Inr buf'"
  shows "buf' ! k =
    (if 0 \<le> ph \<and> ph < 9 \<and> range_s (PHASES ! nat ph) \<le> int k
        \<and> int k \<le> range_e (PHASES ! nat ph) \<and> k < length buf
     then phase_col b ph (int k)
     else if SEG_B_START \<le> int k \<and> int k \<le> SEG_B_END \<and> k < length buf then COL_OFF
     else if SEG_A_START \<le> int k \<and> int k \<le> SEG_A_END \<and> k < length buf
     then segA_col c b step (int k)
     else buf ! k)"
  using render_Inr [OF assms]
  by (auto simp: light_range_nth clear_B_nth render_A_nth clear_B_length render_A_length)

lemma render_idem:
  assumes "render c b step ph buf = Inr buf'"
  shows "render c b step ph buf' = Inr buf'"
proof -
  have len: "length buf' = length buf" by (rule render_length [OF assms])
  from render_Inr [OF assms] obtain buf'' where r2: "render c b step ph buf' = Inr buf''"
    by (auto simp: render_lit render_dark)
  have len2: "length buf'' = length buf'" by (rule render_length [OF r2])
  have "buf'' = buf'"
  proof (rule nth_equalityI)
    show "length buf'' = length buf'" by (rule len2)
  next
    fix k assume "k < length buf''"
    show "buf'' ! k = buf' ! k"
      unfolding render_nth [OF r2, of k] by (simp add: render_nth [OF assms, of k] len)
  qed
  with r2 show ?thesis by simp
qed

section \<open>The packed colours\<close>

lemma Color_blue: "(ucast (Color r g b) :: uint8) = b"
  by (rule bit_word_eqI) (auto simp: Color_def bit_simps)

lemma Color_green: "(ucast (drop_bit 8 (Color r g b)) :: uint8) = g"
  by (rule bit_word_eqI) (auto simp: Color_def bit_simps dest: bit_imp_le_length)

lemma Color_red: "(ucast (drop_bit 16 (Color r g b)) :: uint8) = r"
  by (rule bit_word_eqI) (auto simp: Color_def bit_simps dest: bit_imp_le_length)

lemma Color_inj: "Color r g b = Color r' g' b' \<longleftrightarrow> r = r' \<and> g = g' \<and> b = b'"
  by (metis Color_blue Color_green Color_red)

lemma COL_OFF_Color: "COL_OFF = Color 0 0 0"
  by (simp add: COL_OFF_def Color_def)

lemma colWhite_lit: "colWhite b = COL_OFF \<longleftrightarrow> b = 0"
  unfolding COL_OFF_Color colWhite_def Color_inj by simp

lemma colOrange_lit: "colOrange b = COL_OFF \<longleftrightarrow> b = 0"
  unfolding COL_OFF_Color colOrange_def Color_inj by auto

lemma colOrange_neq_colWhite: "colOrange b = colWhite b \<longleftrightarrow> b = 0"
  unfolding colOrange_def colWhite_def Color_inj by auto

lemma colBlue_neq_colWhite: "colBlue b = colWhite b \<longleftrightarrow> b = 0"
proof -
  have "b div 7 = b \<longleftrightarrow> b = 0"
  proof
    assume "b div 7 = b"
    then have "unat (b div 7) = unat b" by simp
    then have "unat b div 7 = unat b" by (simp add: unat_div)
    then have "unat b = 0" by simp
    then show "b = 0" by (simp add: unat_eq_0)
  qed simp
  then show ?thesis unfolding colBlue_def colWhite_def Color_inj by auto
qed

section \<open>C's remainder and the chase index\<close>

lemma smod_nonneg: "0 \<le> x \<Longrightarrow> 0 < p \<Longrightarrow> x smod p = x mod (p :: int)"
  by (simp add: signed_modulo_int_def sgn_if)

lemma smod_wrap:
  assumes "0 < (p :: int)"
  shows "(x smod p + p) smod p = x mod p"
proof (cases "0 \<le> x")
  case True
  then have "x smod p = x mod p" using assms by (rule smod_nonneg)
  moreover have "0 \<le> x mod p + p" using assms by simp
  ultimately show ?thesis using assms by (simp add: smod_nonneg)
next
  case False
  then have e: "x smod p = - ((- x) mod p)" using assms
    by (simp add: signed_modulo_int_def sgn_if)
  have "(- x) mod p < p" using assms by simp
  then have "0 \<le> - ((- x) mod p) + p" by simp
  then have "(x smod p + p) smod p = (- ((- x) mod p) + p) mod p"
    unfolding e using assms by (rule smod_nonneg)
  also have "\<dots> = (- ((- x) mod p)) mod p" by simp
  also have "\<dots> = (- (- x)) mod p" by (rule mod_minus_eq)
  finally show ?thesis by simp
qed

lemma chase_idx_eq:
  assumes "0 < PATTERN_PERIOD c" "0 \<le> rel" "0 \<le> step"
  shows "chase_idx c rel step =
    (if REVERSE_FLOW c then (rel - step) mod PATTERN_PERIOD c
     else (rel + step) mod PATTERN_PERIOD c)"
  using assms by (simp add: chase_idx_def smod_wrap smod_nonneg)

lemma render_total:
  assumes "0 \<le> ph" "PHASE_GUARD c \<or> ph < 9"
  shows "\<exists>buf'. render c b step ph buf = Inr buf'"
proof (cases "ph < 9")
  case True
  with assms(1) show ?thesis by (simp add: render_lit)
next
  case False
  with assms(2) show ?thesis by (simp add: render_dark)
qed

lemma render_B_lit:
  assumes r: "render c b step ph buf = Inr buf'"
    and i: "SEG_B_START \<le> i" "i \<le> SEG_B_END"
    and len: "length buf = nat LED_COUNT"
  shows "buf' ! nat i =
    (if 0 \<le> ph \<and> ph < 9 \<and> range_s (PHASES ! nat ph) \<le> i \<and> i \<le> range_e (PHASES ! nat ph)
     then phase_col b ph i else COL_OFF)"
proof -
  have lt: "nat i < length buf" "int (nat i) = i"
    using i len by (simp_all add: LED_COUNT_def SEG_B_START_def SEG_B_END_def)
  show ?thesis
    unfolding render_nth [OF r, of "nat i"] using i by (simp only: lt) simp
qed

lemma segments_partition:
  "set [SEG_A_START..SEG_A_END] \<inter> set [SEG_B_START..SEG_B_END] = {}
    \<and> SEG_B_START = SEG_A_END + 1
    \<and> set [SEG_A_START..SEG_A_END] \<union> set [SEG_B_START..SEG_B_END] = {0..LED_COUNT - 1}"
  unfolding set_upto
  by (auto simp: SEG_A_START_def SEG_A_END_def SEG_B_START_def SEG_B_END_def LED_COUNT_def)

section \<open>Iterating an advance\<close>

lemma iterate_smod:
  assumes "0 < (p :: int)"
  shows "((\<lambda>s. (s + 1) smod p) ^^ n) 0 = int n mod p"
proof (induction n)
  case 0
  show ?case by simp
next
  case (Suc n)
  have "0 \<le> int n mod p + 1" using assms by (simp add: add_nonneg_nonneg)
  then have "(int n mod p + 1) smod p = (int n mod p + 1) mod p"
    using assms by (rule smod_nonneg)
  also have "\<dots> = (int n + 1) mod p" by (rule mod_add_left_eq)
  finally show ?case by (simp add: Suc.IH add.commute)
qed

lemma iterate_range:
  assumes "0 < (p :: int)"
  shows "range (\<lambda>n. ((\<lambda>s. (s + 1) smod p) ^^ n) 0) = {0..p - 1}"
proof -
  have "range (\<lambda>n. int n mod p) = {0..p - 1}"
  proof (intro equalityI subsetI)
    fix k assume "k \<in> range (\<lambda>n. int n mod p)"
    then obtain n where "k = int n mod p" by blast
    then show "k \<in> {0..p - 1}" using assms by simp
  next
    fix k assume "k \<in> {0..p - 1}"
    then have "k = int (nat k) mod p" by simp
    then show "k \<in> range (\<lambda>n. int n mod p)" by blast
  qed
  then show ?thesis using assms by (simp add: iterate_smod)
qed

section \<open>The input mapping on samples\<close>

lemma brightness_eq: "0 \<le> s \<Longrightarrow> brightness s = clamp (s div 4) 10 255"
  by (simp add: brightness_def clamp_def Let_def BRIGHT_MIN_def BRIGHT_MAX_def
      signed_divide_int_def sgn_if)

lemma map_long_speed: "0 \<le> s \<Longrightarrow> map_long s 0 1023 5000 300 = 5000 - (4700 * s) div 1023"
  by (simp add: map_long_def signed_divide_int_def sgn_if mult.commute)

section \<open>The loop and its invariant\<close>

lemma advance_pixels: "pixels (advance c now st) = pixels st"
  by (simp add: advance_def Let_def)

lemma advance_chaseStep:
  "chaseStep (advance c now st) =
    (if now - lastChase st \<ge> chaseDelayMs st then chase_advance c (chaseStep st)
     else chaseStep st)"
  by (simp add: advance_def Let_def)

lemma advance_phaseIndex:
  "phaseIndex (advance c now st) =
    (if now - lastPhase st \<ge> phaseDelayMs st then phase_advance c (phaseIndex st)
     else phaseIndex st)"
  by (simp add: advance_def Let_def)

lemma advance_lastChase:
  "lastChase (advance c now st) =
    (if now - lastChase st \<ge> chaseDelayMs st then now else lastChase st)"
  by (simp add: advance_def Let_def)

lemma advance_lastPhase:
  "lastPhase (advance c now st) =
    (if now - lastPhase st \<ge> phaseDelayMs st then now else lastPhase st)"
  by (simp add: advance_def Let_def)

lemma loop_Inr:
  assumes "loop c rawB rawS now st = Inr st'"
  shows "render c (word_of_int (brightness rawB)) (chaseStep st') (phaseIndex st') (pixels st)
      = Inr (pixels st')
    \<and> chaseStep st' = (if chase_due rawS now st then chase_advance c (chaseStep st)
                       else chaseStep st)
    \<and> phaseIndex st' = (if phase_due rawS now st then phase_advance c (phaseIndex st)
                        else phaseIndex st)
    \<and> lastChase st' = (if chase_due rawS now st then now else lastChase st)
    \<and> lastPhase st' = (if phase_due rawS now st then now else lastPhase st)"
  using assms
  by (auto simp: loop_def Let_def advance_pixels advance_chaseStep advance_phaseIndex
      advance_lastChase advance_lastPhase chase_due_def phase_due_def split: sum.splits)

lemma loop_total:
  assumes "render c (word_of_int (brightness rawB))
      (if chase_due rawS now st then chase_advance c (chaseStep st) else chaseStep st)
      (if phase_due rawS now st then phase_advance c (phaseIndex st) else phaseIndex st)
      (pixels st) = Inr buf'"
  shows "\<exists>st'. loop c rawB rawS now st = Inr st'"
  using assms
  by (simp add: loop_def Let_def advance_pixels advance_chaseStep advance_phaseIndex
      chase_due_def phase_due_def split del: if_split cong: if_cong)

lemma advance_bounds:
  assumes "0 < (p :: int)" "0 \<le> s" "s < p"
  shows "(s + 1) smod p = (s + 1) mod p" "0 \<le> (s + 1) smod p" "(s + 1) smod p < p"
  using assms by (simp_all add: smod_nonneg)

lemma loop_step:
  assumes pos: "0 < PATTERN_PERIOD c" "0 < PHASE_COUNT c"
    and g: "PHASE_GUARD c \<or> PHASE_COUNT c \<le> 9"
    and inv: "0 \<le> chaseStep st" "chaseStep st < PATTERN_PERIOD c"
      "0 \<le> phaseIndex st" "phaseIndex st < PHASE_COUNT c"
  shows "\<exists>st'. loop c rawB rawS now st = Inr st'
    \<and> 0 \<le> chaseStep st' \<and> chaseStep st' < PATTERN_PERIOD c
    \<and> 0 \<le> phaseIndex st' \<and> phaseIndex st' < PHASE_COUNT c
    \<and> chaseStep st' = (chaseStep st + (if chase_due rawS now st then 1 else 0))
        mod PATTERN_PERIOD c
    \<and> phaseIndex st' = (phaseIndex st + (if phase_due rawS now st then 1 else 0))
        mod PHASE_COUNT c"
proof -
  let ?ph = "if phase_due rawS now st then phase_advance c (phaseIndex st) else phaseIndex st"
  have phb: "0 \<le> ?ph" "?ph < PHASE_COUNT c"
    using advance_bounds [OF pos(2) inv(3,4)] inv by (simp_all add: phase_advance_def)
  with g have "PHASE_GUARD c \<or> ?ph < 9" by auto
  from render_total [OF phb(1) this] loop_total obtain st'
    where l: "loop c rawB rawS now st = Inr st'"
    by blast
  note f = loop_Inr [OF l]
  have cs: "chaseStep st' = (chaseStep st + (if chase_due rawS now st then 1 else 0))
        mod PATTERN_PERIOD c"
    using f advance_bounds [OF pos(1) inv(1,2)] inv by (simp add: chase_advance_def)
  have ps: "phaseIndex st' = (phaseIndex st + (if phase_due rawS now st then 1 else 0))
        mod PHASE_COUNT c"
    using f advance_bounds [OF pos(2) inv(3,4)] inv by (simp add: phase_advance_def)
  from cs ps pos l show ?thesis by simp
qed

lemma run_invariant:
  assumes pos: "0 < PATTERN_PERIOD c" "0 < PHASE_COUNT c"
    and g: "PHASE_GUARD c \<or> PHASE_COUNT c \<le> 9"
    and inv: "0 \<le> chaseStep st" "chaseStep st < PATTERN_PERIOD c"
      "0 \<le> phaseIndex st" "phaseIndex st < PHASE_COUNT c"
  shows "\<exists>st'. run c ins st = Inr st'
    \<and> 0 \<le> chaseStep st' \<and> chaseStep st' < PATTERN_PERIOD c
    \<and> 0 \<le> phaseIndex st' \<and> phaseIndex st' < PHASE_COUNT c
    \<and> chaseStep st' = (chaseStep st + int (chase_advances c ins st)) mod PATTERN_PERIOD c
    \<and> phaseIndex st' = (phaseIndex st + int (phase_advances c ins st)) mod PHASE_COUNT c"
  using inv
proof (induction ins arbitrary: st)
  case Nil
  then show ?case by simp
next
  case (Cons inp ins)
  obtain rawB rawS now where inp: "inp = (rawB, rawS, now)" by (cases inp) auto
  from loop_step [OF pos g Cons.prems, of rawB rawS now] obtain st1
    where l: "loop c rawB rawS now st = Inr st1"
      and b1: "0 \<le> chaseStep st1" "chaseStep st1 < PATTERN_PERIOD c"
        "0 \<le> phaseIndex st1" "phaseIndex st1 < PHASE_COUNT c"
      and c1: "chaseStep st1 = (chaseStep st + (if chase_due rawS now st then 1 else 0))
        mod PATTERN_PERIOD c"
      and p1: "phaseIndex st1 = (phaseIndex st + (if phase_due rawS now st then 1 else 0))
        mod PHASE_COUNT c"
    by blast
  from Cons.IH [OF b1] obtain st' where r: "run c ins st1 = Inr st'"
      and b': "0 \<le> chaseStep st'" "chaseStep st' < PATTERN_PERIOD c"
        "0 \<le> phaseIndex st'" "phaseIndex st' < PHASE_COUNT c"
      and c': "chaseStep st' = (chaseStep st1 + int (chase_advances c ins st1))
        mod PATTERN_PERIOD c"
      and p': "phaseIndex st' = (phaseIndex st1 + int (phase_advances c ins st1))
        mod PHASE_COUNT c"
    by blast
  have cc: "chaseStep st' = (chaseStep st + int (chase_advances c (inp # ins) st))
        mod PATTERN_PERIOD c"
    unfolding c' c1 by (simp add: inp l mod_add_left_eq add.assoc)
  have pp: "phaseIndex st' = (phaseIndex st + int (phase_advances c (inp # ins) st))
        mod PHASE_COUNT c"
    unfolding p' p1 by (simp add: inp l mod_add_left_eq add.assoc)
  from r l b' cc pp show ?case by (simp add: inp)
qed

lemma sketch_facts:
  assumes "c = sketch_ino \<or> c = sketch_part000"
  shows "0 < PATTERN_PERIOD c" "0 < PHASE_COUNT c" "PHASE_GUARD c \<or> PHASE_COUNT c \<le> 9"
  using assms by (auto simp: sketch_ino_def sketch_part000_def PHASES_def)

lemma initial_facts:
  "chaseStep initial = 0" "phaseIndex initial = 0" "lastChase initial = 0"
  "lastPhase initial = 0" "length (pixels initial) = nat LED_COUNT"
  by (simp_all add: initial_def)

section \<open>Segment B: the phase sequencer\<close>

text \<open>
  C1 fails on \<^verbatim>\<open>rocket-led-arduino.ino\<close>: there \<^verbatim>\<open>PHASE_COUNT\<close> is the length of the
  phase table, 9, and the advance from phase index 8 leads to 0, not to 9.
\<close>

theorem phase_sequencer_counter:
  "PHASE_COUNT sketch_ino = 9 \<and> phase_advance sketch_ino 8 = 0
    \<and> phase_advance sketch_ino 8 \<noteq> (8 + 1) mod 10"
  by (simp add: sketch_ino_def PHASES_def phase_advance_def signed_modulo_int_def)

text \<open>
  C1, amended. In \<^verbatim>\<open>unnamed/part_000\<close> the sequencer has the 10 states \<open>0..9\<close> and in
  \<^verbatim>\<open>rocket-led-arduino.ino\<close> the 9 states \<open>0..8\<close>: an advance adds 1 modulo
  \<^verbatim>\<open>PHASE_COUNT\<close>, \<open>n\<close> advances from 0 lead to \<open>n mod PHASE_COUNT\<close>, and these are
  all the values of the index. In a state below 9 the pixels of Segment B inside the
  sub-range of the phase table carry the phase colour (which is not off unless the
  brightness is 0) and all others are off. State 9 exists in \<^verbatim>\<open>part_000\<close> only, and there
  every pixel of Segment B is off.
\<close>

theorem phase_sequencer_states:
  assumes c: "c = sketch_ino \<or> c = sketch_part000"
    and ph: "0 \<le> ph" "ph < PHASE_COUNT c"
    and len: "length buf = nat LED_COUNT"
  shows "PHASE_COUNT sketch_part000 = 10 \<and> PHASE_COUNT sketch_ino = 9
    \<and> phase_advance c ph = (ph + 1) mod PHASE_COUNT c
    \<and> (phase_advance c ^^ n) 0 = int n mod PHASE_COUNT c
    \<and> range (\<lambda>n. (phase_advance c ^^ n) 0) = {0..PHASE_COUNT c - 1}
    \<and> (\<exists>buf'. render c b step ph buf = Inr buf'
        \<and> (\<forall>i. SEG_B_START \<le> i \<and> i \<le> SEG_B_END \<longrightarrow>
              buf' ! nat i =
                (if ph < 9 \<and> range_s (PHASES ! nat ph) \<le> i \<and> i \<le> range_e (PHASES ! nat ph)
                 then phase_col b ph i else COL_OFF))
        \<and> (ph = 9 \<longrightarrow> c = sketch_part000
              \<and> (\<forall>i. SEG_B_START \<le> i \<and> i \<le> SEG_B_END \<longrightarrow> buf' ! nat i = COL_OFF)))
    \<and> (b \<noteq> 0 \<longrightarrow> phase_col b ph i \<noteq> COL_OFF)"
proof -
  have counts: "PHASE_COUNT sketch_part000 = 10" "PHASE_COUNT sketch_ino = 9"
    by (simp_all add: sketch_ino_def sketch_part000_def PHASES_def)
  from c counts have pos: "0 < PHASE_COUNT c" and g: "PHASE_GUARD c \<or> PHASE_COUNT c = 9"
    by (auto simp: sketch_ino_def sketch_part000_def)
  have adv: "phase_advance c = (\<lambda>s. (s + 1) smod PHASE_COUNT c)"
    by (rule ext) (simp add: phase_advance_def)
  have one: "phase_advance c ph = (ph + 1) mod PHASE_COUNT c"
    using ph pos by (simp add: phase_advance_def smod_nonneg)
  have iter: "(phase_advance c ^^ n) 0 = int n mod PHASE_COUNT c"
    unfolding adv using pos by (rule iterate_smod)
  have rng: "range (\<lambda>n. (phase_advance c ^^ n) 0) = {0..PHASE_COUNT c - 1}"
    unfolding adv using pos by (rule iterate_range)
  from g ph have "PHASE_GUARD c \<or> ph < 9" by auto
  from render_total [OF ph(1) this] obtain buf' where r: "render c b step ph buf = Inr buf'"
    by blast
  have lit: "buf' ! nat i =
      (if ph < 9 \<and> range_s (PHASES ! nat ph) \<le> i \<and> i \<le> range_e (PHASES ! nat ph)
       then phase_col b ph i else COL_OFF)"
    if "SEG_B_START \<le> i" "i \<le> SEG_B_END" for i
    using render_B_lit [OF r that len] ph(1) by simp
  have nine: "c = sketch_part000" if "ph = 9"
    using that c ph(2) counts by auto
  have cols: "b \<noteq> 0 \<longrightarrow> phase_col b ph i \<noteq> COL_OFF"
    by (simp add: phase_col_def colOrange_lit colWhite_lit)
  have "(\<forall>i. SEG_B_START \<le> i \<and> i \<le> SEG_B_END \<longrightarrow>
              buf' ! nat i =
                (if ph < 9 \<and> range_s (PHASES ! nat ph) \<le> i \<and> i \<le> range_e (PHASES ! nat ph)
                 then phase_col b ph i else COL_OFF))
        \<and> (ph = 9 \<longrightarrow> c = sketch_part000
              \<and> (\<forall>i. SEG_B_START \<le> i \<and> i \<le> SEG_B_END \<longrightarrow> buf' ! nat i = COL_OFF))"
    using lit nine by auto
  with r have "\<exists>buf'. render c b step ph buf = Inr buf'
        \<and> (\<forall>i. SEG_B_START \<le> i \<and> i \<le> SEG_B_END \<longrightarrow>
              buf' ! nat i =
                (if ph < 9 \<and> range_s (PHASES ! nat ph) \<le> i \<and> i \<le> range_e (PHASES ! nat ph)
                 then phase_col b ph i else COL_OFF))
        \<and> (ph = 9 \<longrightarrow> c = sketch_part000
              \<and> (\<forall>i. SEG_B_START \<le> i \<and> i \<le> SEG_B_END \<longrightarrow> buf' ! nat i = COL_OFF))"
    by blast
  with counts one iter rng cols show ?thesis by simp
qed

theorem phase_sequencer_states_witness:
  "phase_advance sketch_part000 9 = 0
    \<and> (\<exists>buf'. render sketch_part000 128 0 9 (replicate 108 0) = Inr buf'
          \<and> buf' ! 33 = COL_OFF \<and> buf' ! 107 = COL_OFF)"
proof -
  have h: "sketch_part000 = sketch_ino \<or> sketch_part000 = sketch_part000"
    "(0 :: int) \<le> 9" "9 < PHASE_COUNT sketch_part000"
    "length (replicate 108 (0 :: uint32)) = nat LED_COUNT"
    by (simp_all add: sketch_part000_def LED_COUNT_def)
  note t = phase_sequencer_states [OF h, where b = 128 and step = 0]
  from t have a: "phase_advance sketch_part000 9 = (9 + 1) mod PHASE_COUNT sketch_part000"
    by blast
  from t obtain buf' where r: "render sketch_part000 128 0 9 (replicate 108 0) = Inr buf'"
    and f: "\<forall>i. SEG_B_START \<le> i \<and> i \<le> SEG_B_END \<longrightarrow> buf' ! nat i = COL_OFF"
    by blast
  have "buf' ! nat 33 = COL_OFF" "buf' ! nat 107 = COL_OFF"
    using f [THEN spec, of 33] f [THEN spec, of 107]
    by (simp_all add: SEG_B_START_def SEG_B_END_def)
  with r a show ?thesis by (simp add: sketch_part000_def)
qed

section \<open>Segment A: the chase pattern\<close>

text \<open>
  C2. For a pixel \<open>i\<close> of Segment A and a chase step inside its period, in either sketch
  and with either setting of the direction switch: with \<open>rel = i - SEG_A_START\<close> and
  \<open>period = 2 * PATTERN_BLOCK\<close>, the index \<open>idx\<close> computed with C's remainder by the
  formula of the direction lies in \<open>[0, period)\<close>, equals the mathematical remainder of
  \<open>rel - step\<close> (reversed) or \<open>rel + step\<close>, and after the render pass the pixel is
  white at the brightness if \<open>idx < PATTERN_BLOCK\<close> and blue-tinted otherwise; the two
  colours differ unless the brightness is 0.
\<close>

theorem chase_pattern:
  assumes c: "c = sketch_ino\<lparr>REVERSE_FLOW := reversed\<rparr> \<or> c = sketch_part000\<lparr>REVERSE_FLOW := reversed\<rparr>"
    and i: "SEG_A_START \<le> i" "i \<le> SEG_A_END"
    and step: "0 \<le> step" "step < PATTERN_PERIOD c"
    and ph: "0 \<le> ph" "ph < PHASE_COUNT c"
    and len: "length buf = nat LED_COUNT"
    and rel: "rel = i - SEG_A_START"
    and period: "period = 2 * PATTERN_BLOCK c"
    and idx: "idx = (if reversed then ((rel - step) smod period + period) smod period
                     else (rel + step) smod period)"
  shows "\<exists>buf'. render c b step ph buf = Inr buf'
    \<and> buf' ! nat i = (if idx < PATTERN_BLOCK c then colWhite b else colBlue b)
    \<and> 0 \<le> idx \<and> idx < period
    \<and> idx = (if reversed then (rel - step) mod period else (rel + step) mod period)
    \<and> (colBlue b = colWhite b \<longleftrightarrow> b = 0)"
proof -
  from c have pp: "PATTERN_PERIOD c = period" "0 < period" "REVERSE_FLOW c = reversed"
    and g: "PHASE_GUARD c \<or> PHASE_COUNT c = 9"
    by (auto simp: period sketch_ino_def sketch_part000_def PHASES_def)
  from i have rel0: "0 \<le> rel" by (simp add: rel)
  have ci: "chase_idx c rel step = idx"
    by (simp add: chase_idx_def idx pp)
  have im: "idx = (if reversed then (rel - step) mod period else (rel + step) mod period)"
    using chase_idx_eq [of c rel step] rel0 step pp ci by simp
  then have ib: "0 \<le> idx" "idx < period" using pp by (simp_all split: if_splits)
  from g ph have "PHASE_GUARD c \<or> ph < 9" by auto
  from render_total [OF ph(1) this] obtain buf' where r: "render c b step ph buf = Inr buf'"
    by blast
  have lt: "nat i < length buf" "int (nat i) = i" "\<not> SEG_B_START \<le> i"
    using i len by (simp_all add: LED_COUNT_def SEG_A_START_def SEG_A_END_def SEG_B_START_def)
  have nr: "\<not> (0 \<le> ph \<and> ph < 9 \<and> range_s (PHASES ! nat ph) \<le> i)"
  proof
    assume a: "0 \<le> ph \<and> ph < 9 \<and> range_s (PHASES ! nat ph) \<le> i"
    then have "read_PHASES ph = Inr (PHASES ! nat ph)" by (simp add: read_PHASES_ok)
    from read_PHASES_bounds [OF this] a lt(3) show False by simp
  qed
  have "buf' ! nat i = segA_col c b step i"
    unfolding render_nth [OF r, of "nat i"] using lt nr i by (simp only: lt) auto
  then have "buf' ! nat i = (if idx < PATTERN_BLOCK c then colWhite b else colBlue b)"
    by (simp add: segA_col_def Let_def rel [symmetric] ci)
  with r im ib colBlue_neq_colWhite [of b] show ?thesis by blast
qed

theorem chase_pattern_witness:
  "\<exists>buf'. render (sketch_part000\<lparr>REVERSE_FLOW := True\<rparr>) 128 3 9 (replicate 108 0) = Inr buf'
    \<and> buf' ! nat 5 =
      (if (2 :: int) < PATTERN_BLOCK (sketch_part000\<lparr>REVERSE_FLOW := True\<rparr>)
       then colWhite 128 else colBlue 128)
    \<and> (0 :: int) \<le> 2 \<and> (2 :: int) < 4
    \<and> (2 :: int) = (if True then (5 - 3) mod 4 else (5 + 3) mod 4)
    \<and> (colBlue 128 = colWhite 128 \<longleftrightarrow> (128 :: uint8) = 0)"
  by (rule chase_pattern [where i = 5 and step = 3 and rel = 5 and period = 4 and idx = 2
        and reversed = True])
    (simp_all add: sketch_part000_def SEG_A_START_def SEG_A_END_def LED_COUNT_def
      signed_modulo_int_def)

section \<open>Input mapping: results\<close>

text \<open>
  C3. For speed samples \<open>s \<le> t\<close> in \<open>[0, 1023]\<close> the phase delay of \<open>t\<close> is at most that
  of \<open>s\<close>; sample 0 gives 5000 and sample 1023 gives 300 exactly; the delay is the
  integer interpolation \<open>5000 - 4700 * s div 1023\<close>, with no clamp after it.
\<close>

theorem phase_delay_antimono:
  assumes "0 \<le> s" "s \<le> t" "t \<le> 1023"
  shows "phase_delay t \<le> phase_delay s
    \<and> phase_delay 0 = 5000 \<and> phase_delay 1023 = 300
    \<and> uint (phase_delay s) = 5000 - (4700 * s) div 1023"
proof -
  have m: "(4700 * s) div 1023 \<le> (4700 * t) div 1023"
    using assms by (intro zdiv_mono1) simp_all
  have lo: "0 \<le> (4700 * s) div 1023" using assms by (simp add: pos_imp_zdiv_nonneg_iff)
  have hi: "(4700 * t) div 1023 \<le> 4700"
  proof -
    have "(4700 * t) div 1023 \<le> (4700 * 1023) div 1023"
      using assms by (intro zdiv_mono1) simp_all
    then show ?thesis by simp
  qed
  have r: "uint (word_of_int k :: uint32) = k" if "0 \<le> k" "k \<le> 5000" for k
    using that by (simp only: uint_word_of_int) (simp add: take_bit_int_eq_self)
  have us: "uint (phase_delay s) = 5000 - (4700 * s) div 1023"
    unfolding phase_delay_def map_long_speed [OF assms(1)]
    using assms m lo hi by (intro r) simp_all
  have t0: "0 \<le> t" using assms by simp
  have ut: "uint (phase_delay t) = 5000 - (4700 * t) div 1023"
    unfolding phase_delay_def map_long_speed [OF t0]
    using assms m lo hi by (intro r) simp_all
  have "phase_delay 0 = 5000" "phase_delay 1023 = 300"
    by (simp_all add: phase_delay_def map_long_def signed_divide_int_def)
  then show ?thesis using us ut m by (simp add: word_le_def)
qed

theorem phase_delay_antimono_witness:
  "phase_delay 1023 \<le> phase_delay 512
    \<and> phase_delay 0 = 5000 \<and> phase_delay 1023 = 300
    \<and> uint (phase_delay 512) = 5000 - (4700 * 512) div 1023
    \<and> phase_delay 512 = 2648"
  using phase_delay_antimono [of 512 1023]
  by (simp add: phase_delay_def map_long_def signed_divide_int_def)

text \<open>
  C4. For every value of \<^verbatim>\<open>phaseDelayMs\<close> (any 32-bit unsigned value), the chase delay is
  the integer quotient by 8 clamped to \<open>[20, 300]\<close>; 1200 gives 150, 5000 gives 300
  (clamped from 625) and 300 gives 37 (not clamped).
\<close>

theorem chase_delay_clamp:
  "unat (chase_delay pd) = clamp (unat pd div 8) (20 :: nat) 300
   \<and> chase_delay 1200 = 150
   \<and> chase_delay 5000 = 300 \<and> (5000 :: nat) div 8 = 625
   \<and> chase_delay 300 = 37"
proof -
  have "unat (chase_delay pd) = clamp (unat pd div 8) (20 :: nat) 300"
    by (simp add: chase_delay_def clamp_def Let_def CHASE_DELAY_MIN_MS_def
        CHASE_DELAY_MAX_MS_def word_less_nat_alt unat_div)
  moreover have "chase_delay 1200 = 150" "chase_delay 5000 = 300" "chase_delay 300 = 37"
    by (simp_all add: chase_delay_def Let_def CHASE_DELAY_MIN_MS_def CHASE_DELAY_MAX_MS_def)
  ultimately show ?thesis by simp
qed

text \<open>
  C5. For every brightness sample \<open>s\<close> in \<open>[0, 1023]\<close> the mapped brightness is \<open>s div 4\<close>
  clamped to \<open>[10, 255]\<close>; it lies in \<open>[10, 255]\<close>, it does not decrease when the sample
  grows, and the cast to \<^verbatim>\<open>uint8_t\<close> at its uses keeps its value.
\<close>

theorem brightness_clamp_mono:
  assumes "0 \<le> s" "s \<le> t" "t \<le> 1023"
  shows "brightness s = clamp (s div 4) 10 255
    \<and> 10 \<le> brightness s \<and> brightness s \<le> 255
    \<and> brightness s \<le> brightness t
    \<and> uint (word_of_int (brightness s) :: uint8) = brightness s"
proof -
  have e: "brightness s = clamp (s div 4) 10 255" "brightness t = clamp (t div 4) 10 255"
    using assms by (simp_all add: brightness_eq)
  have m: "s div 4 \<le> t div 4" using assms by (simp add: zdiv_mono1)
  have b: "10 \<le> brightness s" "brightness s \<le> 255"
    by (simp_all add: e clamp_def)
  have u: "uint (word_of_int (brightness s) :: uint8) = brightness s"
    using b by (simp add: uint_word_of_int take_bit_int_eq_self)
  show ?thesis using e m b u by (auto simp: clamp_def)
qed

theorem brightness_clamp_mono_witness:
  "brightness 512 = clamp (512 div 4) 10 255
    \<and> 10 \<le> brightness 512 \<and> brightness 512 \<le> 255
    \<and> brightness 512 \<le> brightness 1023
    \<and> uint (word_of_int (brightness 512) :: uint8) = brightness 512
    \<and> brightness 512 = 128"
  using brightness_clamp_mono [of 512 1023]
  by (simp add: brightness_def Let_def BRIGHT_MIN_def BRIGHT_MAX_def signed_divide_int_def)

section \<open>Segment B: the colours of a phase\<close>

text \<open>
  C6. In either sketch and for every phase index of the sketch: the render pass succeeds;
  in phase index 5 the sub-range is \<open>74..79\<close>, LED 74 is orange and LEDs \<open>75..79\<close> are
  white at the brightness; in every phase below 9 the pixels of its sub-range are white,
  but for LED 74 in phase 5; every pixel of Segment B outside the sub-range of the active
  phase is off. Orange, white and off differ unless the brightness is 0.
\<close>

theorem phase_rendering:
  assumes c: "c = sketch_ino \<or> c = sketch_part000"
    and ph: "0 \<le> ph" "ph < PHASE_COUNT c"
    and len: "length buf = nat LED_COUNT"
  shows "\<exists>buf'. render c b step ph buf = Inr buf'
    \<and> (ph = 5 \<longrightarrow> PHASES ! nat ph = \<lparr>range_s = 74, range_e = 79\<rparr>
          \<and> buf' ! 74 = colOrange b
          \<and> (\<forall>i. 75 \<le> i \<and> i \<le> 79 \<longrightarrow> buf' ! nat i = colWhite b))
    \<and> (\<forall>i. ph < 9 \<and> range_s (PHASES ! nat ph) \<le> i \<and> i \<le> range_e (PHASES ! nat ph)
          \<longrightarrow> buf' ! nat i = (if ph = 5 \<and> i = 74 then colOrange b else colWhite b))
    \<and> (\<forall>i. SEG_B_START \<le> i \<and> i \<le> SEG_B_END
          \<and> \<not> (ph < 9 \<and> range_s (PHASES ! nat ph) \<le> i \<and> i \<le> range_e (PHASES ! nat ph))
          \<longrightarrow> buf' ! nat i = COL_OFF)
    \<and> (b \<noteq> 0 \<longrightarrow> colOrange b \<noteq> colWhite b \<and> colWhite b \<noteq> COL_OFF)"
proof -
  from c have g: "PHASE_GUARD c \<or> PHASE_COUNT c = 9"
    by (auto simp: sketch_ino_def sketch_part000_def PHASES_def)
  with ph have "PHASE_GUARD c \<or> ph < 9" by auto
  from render_total [OF ph(1) this] obtain buf' where r: "render c b step ph buf = Inr buf'"
    by blast
  note lit = render_B_lit [OF r _ _ len]
  have in_B: "SEG_B_START \<le> i \<and> i \<le> SEG_B_END"
    if "ph < 9" "range_s (PHASES ! nat ph) \<le> i" "i \<le> range_e (PHASES ! nat ph)" for i
  proof -
    from ph(1) that(1) have "read_PHASES ph = Inr (PHASES ! nat ph)" by (rule read_PHASES_ok)
    from read_PHASES_bounds [OF this] that show ?thesis by simp
  qed
  have inside: "buf' ! nat i = (if ph = 5 \<and> i = 74 then colOrange b else colWhite b)"
    if "ph < 9" "range_s (PHASES ! nat ph) \<le> i" "i \<le> range_e (PHASES ! nat ph)" for i
    using lit [of i] in_B [OF that] that ph(1) by (simp add: phase_col_def)
  have outside: "buf' ! nat i = COL_OFF"
    if "SEG_B_START \<le> i" "i \<le> SEG_B_END"
      "\<not> (ph < 9 \<and> range_s (PHASES ! nat ph) \<le> i \<and> i \<le> range_e (PHASES ! nat ph))" for i
    using lit [of i] that by auto
  have five: "PHASES ! nat 5 = \<lparr>range_s = 74, range_e = 79\<rparr>"
    by (simp add: PHASES_def eval_nat_numeral)
  have orange: "buf' ! 74 = colOrange b" if "ph = 5"
    using inside [of 74] that five by simp
  have white: "buf' ! nat i = colWhite b" if "ph = 5" "75 \<le> i" "i \<le> 79" for i
    using inside [of i] that five by simp
  have cols: "b \<noteq> 0 \<longrightarrow> colOrange b \<noteq> colWhite b \<and> colWhite b \<noteq> COL_OFF"
    by (simp add: colOrange_neq_colWhite colWhite_lit)
  from r inside outside five orange white cols show ?thesis by (intro exI [of _ buf']) auto
qed

theorem phase_rendering_witness:
  "\<exists>buf'. render sketch_part000 128 0 5 (replicate 108 0) = Inr buf'
    \<and> buf' ! 74 = colOrange 128 \<and> buf' ! 75 = colWhite 128 \<and> buf' ! 79 = colWhite 128
    \<and> buf' ! 73 = COL_OFF \<and> buf' ! 80 = COL_OFF"
proof -
  have "\<exists>buf'. render sketch_part000 128 0 5 (replicate 108 0) = Inr buf'
    \<and> ((5 :: int) = 5 \<longrightarrow> PHASES ! nat 5 = \<lparr>range_s = 74, range_e = 79\<rparr>
          \<and> buf' ! 74 = colOrange 128
          \<and> (\<forall>i. 75 \<le> i \<and> i \<le> 79 \<longrightarrow> buf' ! nat i = colWhite 128))
    \<and> (\<forall>i. (5 :: int) < 9 \<and> range_s (PHASES ! nat 5) \<le> i \<and> i \<le> range_e (PHASES ! nat 5)
          \<longrightarrow> buf' ! nat i = (if (5 :: int) = 5 \<and> i = 74 then colOrange 128 else colWhite 128))
    \<and> (\<forall>i. SEG_B_START \<le> i \<and> i \<le> SEG_B_END
          \<and> \<not> ((5 :: int) < 9 \<and> range_s (PHASES ! nat 5) \<le> i \<and> i \<le> range_e (PHASES ! nat 5))
          \<longrightarrow> buf' ! nat i = COL_OFF)
    \<and> ((128 :: uint8) \<noteq> 0 \<longrightarrow> colOrange 128 \<noteq> colWhite 128 \<and> colWhite 128 \<noteq> COL_OFF)"
    by (rule phase_rendering) (simp_all add: sketch_part000_def LED_COUNT_def)
  then obtain buf' where r: "render sketch_part000 128 0 5 (replicate 108 0) = Inr buf'"
    and o: "buf' ! 74 = colOrange 128"
    and w: "\<forall>i. 75 \<le> i \<and> i \<le> 79 \<longrightarrow> buf' ! nat i = colWhite 128"
    and f: "\<forall>i. SEG_B_START \<le> i \<and> i \<le> SEG_B_END
          \<and> \<not> ((5 :: int) < 9 \<and> range_s (PHASES ! nat 5) \<le> i \<and> i \<le> range_e (PHASES ! nat 5))
          \<longrightarrow> buf' ! nat i = COL_OFF"
    by blast
  have five: "PHASES ! 5 = \<lparr>range_s = 74, range_e = 79\<rparr>"
    by (simp add: PHASES_def)
  have "buf' ! nat 75 = colWhite 128" "buf' ! nat 79 = colWhite 128"
    using w [THEN spec, of 75] w [THEN spec, of 79] by simp_all
  moreover have "buf' ! nat 73 = COL_OFF" "buf' ! nat 80 = COL_OFF"
    using f [THEN spec, of 73] f [THEN spec, of 80]
    by (simp_all add: five SEG_B_START_def SEG_B_END_def)
  ultimately show ?thesis using r o by simp
qed

section \<open>Wrap-around of the two indices\<close>

text \<open>
  C7. In either sketch, \<open>N\<close> advances from 0 lead to chase step \<open>N mod PATTERN_PERIOD\<close>
  and to phase index \<open>N mod PHASE_COUNT\<close>. Every run of the loop from the initial state,
  on any inputs, returns a state whose chase step is the number of passes that advanced
  it modulo the period, whose phase index is the number of passes that advanced it modulo
  \<^verbatim>\<open>PHASE_COUNT\<close>, and both lie inside their bounds.
\<close>

theorem advance_wraparound:
  assumes c: "c = sketch_ino \<or> c = sketch_part000"
  shows "(chase_advance c ^^ N) 0 = int N mod PATTERN_PERIOD c
    \<and> (phase_advance c ^^ N) 0 = int N mod PHASE_COUNT c
    \<and> (\<exists>st. run c ins initial = Inr st
        \<and> chaseStep st = int (chase_advances c ins initial) mod PATTERN_PERIOD c
        \<and> phaseIndex st = int (phase_advances c ins initial) mod PHASE_COUNT c
        \<and> 0 \<le> chaseStep st \<and> chaseStep st < PATTERN_PERIOD c
        \<and> 0 \<le> phaseIndex st \<and> phaseIndex st < PHASE_COUNT c)"
proof -
  note f = sketch_facts [OF c]
  have ca: "chase_advance c = (\<lambda>s. (s + 1) smod PATTERN_PERIOD c)"
    by (rule ext) (simp add: chase_advance_def)
  have pa: "phase_advance c = (\<lambda>s. (s + 1) smod PHASE_COUNT c)"
    by (rule ext) (simp add: phase_advance_def)
  have i1: "(chase_advance c ^^ N) 0 = int N mod PATTERN_PERIOD c"
    unfolding ca using f(1) by (rule iterate_smod)
  have i2: "(phase_advance c ^^ N) 0 = int N mod PHASE_COUNT c"
    unfolding pa using f(2) by (rule iterate_smod)
  have inv: "0 \<le> chaseStep initial" "chaseStep initial < PATTERN_PERIOD c"
    "0 \<le> phaseIndex initial" "phaseIndex initial < PHASE_COUNT c"
    using f by (simp_all add: initial_facts)
  from run_invariant [OF f inv, of ins] i1 i2 show ?thesis
    by (simp add: initial_facts) blast
qed

theorem advance_wraparound_witness:
  "(chase_advance sketch_part000 ^^ 7) 0 = 3
    \<and> (phase_advance sketch_part000 ^^ 7) 0 = 7
    \<and> (\<exists>st. run sketch_part000 [(512, 0, 300)] initial = Inr st
          \<and> 0 \<le> chaseStep st \<and> chaseStep st < 4 \<and> 0 \<le> phaseIndex st \<and> phaseIndex st < 10)"
proof -
  have h: "sketch_part000 = sketch_ino \<or> sketch_part000 = sketch_part000" by simp
  note t = advance_wraparound [OF h, where N = 7 and ins = "[(512, 0, 300)]"]
  have p: "PATTERN_PERIOD sketch_part000 = 4" "PHASE_COUNT sketch_part000 = 10"
    by (simp_all add: sketch_part000_def)
  from t show ?thesis unfolding p by auto
qed

section \<open>The segments and the buffer\<close>

text \<open>
  C8. The index ranges of Segment A and Segment B are disjoint, Segment B starts right
  after Segment A, and together they are the indices \<open>0..107\<close> of the strip of 108
  pixels. A render pass overwrites the whole buffer: from any two buffers of the length
  of the strip it produces the same buffer.
\<close>

theorem segments_cover_strip:
  assumes c: "c = sketch_ino \<or> c = sketch_part000"
    and ph: "0 \<le> ph" "ph < PHASE_COUNT c"
    and len: "length buf1 = nat LED_COUNT" "length buf2 = nat LED_COUNT"
  shows "set [SEG_A_START..SEG_A_END] \<inter> set [SEG_B_START..SEG_B_END] = {}
    \<and> SEG_B_START = SEG_A_END + 1
    \<and> set [SEG_A_START..SEG_A_END] \<union> set [SEG_B_START..SEG_B_END] = {0..LED_COUNT - 1}
    \<and> LED_COUNT = 108
    \<and> (\<exists>buf'. render c b step ph buf1 = Inr buf' \<and> render c b step ph buf2 = Inr buf'
          \<and> length buf' = nat LED_COUNT)"
proof -
  from c have g: "PHASE_GUARD c \<or> PHASE_COUNT c = 9"
    by (auto simp: sketch_ino_def sketch_part000_def PHASES_def)
  with ph have pg: "PHASE_GUARD c \<or> ph < 9" by auto
  from render_total [OF ph(1) pg] obtain r1 where r1: "render c b step ph buf1 = Inr r1"
    by blast
  from render_total [OF ph(1) pg] obtain r2 where r2: "render c b step ph buf2 = Inr r2"
    by blast
  have l1: "length r1 = nat LED_COUNT" using render_length [OF r1] len by simp
  have l2: "length r2 = nat LED_COUNT" using render_length [OF r2] len by simp
  have "r2 = r1"
  proof (rule nth_equalityI)
    show "length r2 = length r1" using l1 l2 by simp
  next
    fix k assume "k < length r2"
    then have k: "k < nat LED_COUNT" using l2 by simp
    then have cover: "SEG_A_START \<le> int k \<and> int k \<le> SEG_A_END
        \<or> SEG_B_START \<le> int k \<and> int k \<le> SEG_B_END"
      by (auto simp: SEG_A_START_def SEG_A_END_def SEG_B_START_def SEG_B_END_def LED_COUNT_def)
    show "r2 ! k = r1 ! k"
      unfolding render_nth [OF r2, of k] render_nth [OF r1, of k] using cover k len by auto
  qed
  with r1 r2 l1 have "\<exists>buf'. render c b step ph buf1 = Inr buf' \<and> render c b step ph buf2 = Inr buf'
          \<and> length buf' = nat LED_COUNT"
    by blast
  with segments_partition show ?thesis by (simp add: LED_COUNT_def)
qed

theorem segments_cover_strip_witness:
  "\<exists>buf'. render sketch_ino 128 2 8 (replicate 108 0) = Inr buf'
     \<and> render sketch_ino 128 2 8 (replicate 108 16777215) = Inr buf'
     \<and> length buf' = 108"
proof -
  have h: "sketch_ino = sketch_ino \<or> sketch_ino = sketch_part000"
    "(0 :: int) \<le> 8" "8 < PHASE_COUNT sketch_ino"
    "length (replicate 108 (0 :: uint32)) = nat LED_COUNT"
    "length (replicate 108 (16777215 :: uint32)) = nat LED_COUNT"
    by (simp_all add: sketch_ino_def PHASES_def LED_COUNT_def)
  from segments_cover_strip [OF h, where b = 128 and step = 2]
  show ?thesis by (simp add: LED_COUNT_def)
qed

text \<open>
  C9. When a pass of the loop is followed by a pass with the same brightness that leaves
  the chase step and the phase index as they are, the second pass leaves the pixel buffer
  as it is: rendering the state of the first pass again, on the buffer it produced,
  gives that buffer.
\<close>

theorem render_idempotent:
  assumes l1: "loop c rawB rawS now st = Inr st1"
    and l2: "loop c rawB' rawS' now' st1 = Inr st2"
    and same: "brightness rawB' = brightness rawB" "chaseStep st2 = chaseStep st1"
      "phaseIndex st2 = phaseIndex st1"
  shows "pixels st2 = pixels st1
    \<and> render c (word_of_int (brightness rawB)) (chaseStep st1) (phaseIndex st1) (pixels st1)
        = Inr (pixels st1)"
proof -
  from loop_Inr [OF l1]
  have r1: "render c (word_of_int (brightness rawB)) (chaseStep st1) (phaseIndex st1) (pixels st)
      = Inr (pixels st1)"
    by blast
  from loop_Inr [OF l2]
  have r2: "render c (word_of_int (brightness rawB)) (chaseStep st1) (phaseIndex st1) (pixels st1)
      = Inr (pixels st2)"
    by (simp add: same)
  from render_idem [OF r1] r2 show ?thesis by simp
qed

theorem render_idempotent_witness:
  "\<exists>st1 st2. loop sketch_ino 512 0 300 initial = Inr st1
    \<and> loop sketch_ino 512 0 305 st1 = Inr st2
    \<and> chaseStep st1 = 1 \<and> chaseStep st2 = 1 \<and> phaseIndex st2 = 0
    \<and> pixels st2 = pixels st1"
proof -
  have c: "sketch_ino = sketch_ino \<or> sketch_ino = sketch_part000" by simp
  note f = sketch_facts [OF c]
  have d: "phase_delay 0 = 5000" "chase_delay 5000 = 300"
    by (simp_all add: phase_delay_def map_long_def chase_delay_def Let_def
        CHASE_DELAY_MIN_MS_def CHASE_DELAY_MAX_MS_def)
  have inv: "0 \<le> chaseStep initial" "chaseStep initial < PATTERN_PERIOD sketch_ino"
    "0 \<le> phaseIndex initial" "phaseIndex initial < PHASE_COUNT sketch_ino"
    using f by (simp_all add: initial_facts)
  from loop_step [OF f inv, of 512 0 300] obtain st1
    where l1: "loop sketch_ino 512 0 300 initial = Inr st1"
      and inv1: "0 \<le> chaseStep st1" "chaseStep st1 < PATTERN_PERIOD sketch_ino"
        "0 \<le> phaseIndex st1" "phaseIndex st1 < PHASE_COUNT sketch_ino"
    by blast
  have s1: "chaseStep st1 = 1" "phaseIndex st1 = 0" "lastChase st1 = 300" "lastPhase st1 = 0"
    using loop_Inr [OF l1]
    by (simp_all add: chase_due_def phase_due_def d initial_facts chase_advance_def
        sketch_ino_def signed_modulo_int_def)
  from loop_step [OF f inv1, of 512 0 305] obtain st2
    where l2: "loop sketch_ino 512 0 305 st1 = Inr st2"
    by blast
  have s2: "chaseStep st2 = chaseStep st1" "phaseIndex st2 = phaseIndex st1"
    using loop_Inr [OF l2] by (simp_all add: chase_due_def phase_due_def d s1)
  have "brightness 512 = brightness 512" by simp
  from render_idempotent [OF l1 l2 this s2] l1 l2 s1 s2 show ?thesis by auto
qed

section \<open>Reads of the phase table\<close>

text \<open>
  C10. A read of \<^verbatim>\<open>PHASES[phaseIndex]\<close> succeeds exactly for an index in \<open>[0, 8]\<close>, and a
  read outside stops the run with an error. Every run of either sketch from the initial
  state, on any inputs, returns a state: no read is out of bounds. In
  \<^verbatim>\<open>rocket-led-arduino.ino\<close> the phase index stays in \<open>[0, 8]\<close>, since \<^verbatim>\<open>PHASE_COUNT\<close> is the
  length 9 of the table. In \<^verbatim>\<open>part_000\<close> it ranges over \<open>[0, 9]\<close>, 9 is reached after nine
  advances, and at 9 the test \<^verbatim>\<open>phaseIndex < 9\<close> skips the read, which without the test
  would be out of bounds.
\<close>

theorem phase_table_reads_in_bounds:
  "(\<exists>st. run sketch_ino ins initial = Inr st \<and> 0 \<le> phaseIndex st \<and> phaseIndex st \<le> 8)
    \<and> (\<exists>st. run sketch_part000 ins initial = Inr st
          \<and> 0 \<le> phaseIndex st \<and> phaseIndex st \<le> 9)
    \<and> PHASE_COUNT sketch_ino = int (length PHASES) \<and> length PHASES = 9
    \<and> ((\<exists>r. read_PHASES ph = Inr r) \<longleftrightarrow> 0 \<le> ph \<and> ph \<le> 8)
    \<and> (phase_advance sketch_part000 ^^ 9) 0 = 9
    \<and> render_B sketch_part000 b 9 buf = Inr buf
    \<and> render_B sketch_ino b 9 buf = Inl PhaseTableOutOfBounds"
proof -
  have ci: "sketch_ino = sketch_ino \<or> sketch_ino = sketch_part000"
    and cp: "sketch_part000 = sketch_ino \<or> sketch_part000 = sketch_part000"
    by simp_all
  have inv: "0 \<le> chaseStep initial" "chaseStep initial < PATTERN_PERIOD c"
    "0 \<le> phaseIndex initial" "phaseIndex initial < PHASE_COUNT c"
    if "c = sketch_ino \<or> c = sketch_part000" for c
    using sketch_facts [OF that] by (simp_all add: initial_facts)
  have n: "PHASE_COUNT sketch_ino = 9" "PHASE_COUNT sketch_part000 = 10"
    by (simp_all add: sketch_ino_def sketch_part000_def PHASES_def)
  from run_invariant [OF sketch_facts [OF ci] inv [OF ci], of ins]
  have a: "\<exists>st. run sketch_ino ins initial = Inr st \<and> 0 \<le> phaseIndex st \<and> phaseIndex st \<le> 8"
    unfolding n by auto
  from run_invariant [OF sketch_facts [OF cp] inv [OF cp], of ins]
  have b: "\<exists>st. run sketch_part000 ins initial = Inr st
      \<and> 0 \<le> phaseIndex st \<and> phaseIndex st \<le> 9"
    unfolding n by auto
  have l: "PHASE_COUNT sketch_ino = int (length PHASES)" "length PHASES = 9"
    by (simp_all add: sketch_ino_def PHASES_def)
  have rd: "(\<exists>r. read_PHASES ph = Inr r) \<longleftrightarrow> 0 \<le> ph \<and> ph \<le> 8"
    by (auto simp: read_PHASES_def l)
  have pa: "phase_advance sketch_part000 = (\<lambda>s. (s + 1) smod 10)"
    by (rule ext) (simp add: phase_advance_def n)
  have it: "(phase_advance sketch_part000 ^^ 9) 0 = 9"
    unfolding pa by (simp add: iterate_smod)
  have g: "render_B sketch_part000 b 9 buf = Inr buf"
    by (simp add: render_B_def sketch_part000_def)
  have u: "render_B sketch_ino b 9 buf = Inl PhaseTableOutOfBounds"
    by (simp add: render_B_def sketch_ino_def light_phase_def read_PHASES_def PHASES_def)
  from a b l rd it g u show ?thesis by simp
qed

theorem phase_table_reads_in_bounds_witness:
  "(\<exists>st. run sketch_ino [(512, 0, 300)] initial = Inr st
      \<and> 0 \<le> phaseIndex st \<and> phaseIndex st \<le> 8)
    \<and> render_B sketch_part000 128 9 [] = Inr []"
  using phase_table_reads_in_bounds [of "[(512, 0, 300)]" 3 128 "[]"] by blast

end
